theory Spec2Isabelle
  imports
    Complex_Main
    "HOL-Library.Multiset"
    "HOL-Library.Log_Nat"
    "HOL-Library.Product_Lexorder"
    "HOL-Library.List_Lexorder"
    "HOL-Library.Char_ord"
begin

section \<open>The task table: ranking and the ROI column\<close>

text \<open>
  The development embeds the two computations of \<^verbatim>\<open>src/components/TaskTable.tsx\<close>:
  the sorted copy \<^verbatim>\<open>sortedTasks\<close> of the task list (lines 25 to 34) and the cell
  formatter \<^verbatim>\<open>calculateROI\<close> (lines 37 to 40).

  Numbers. A JavaScript number is an IEEE double. The fields of a task hold finite
  numbers (section 3 of the specification: an undefined ROI is never an error value
  embedded in the number), modelled as rationals; the sort reads the sign of the
  comparator's result only, and the difference of two finite doubles, also where it is
  rounded or overflows, has the sign of the exact difference. The arguments of
  \<^verbatim>\<open>calculateROI\<close> are arbitrary numbers (section 4.1: zero, negative, not-a-number,
  absent), modelled by the type \<open>number\<close> below with the rounding of the quotient.
  A value that may be \<^verbatim>\<open>null\<close> or \<^verbatim>\<open>undefined\<close> is an \<open>option\<close>, with \<open>None\<close> for
  the absent value.
\<close>

subsection \<open>Data\<close>

datatype priority = High | Medium | Low

text \<open>
  Modelled from the spec: the type \<^verbatim>\<open>DerivedTask\<close> is imported from \<^verbatim>\<open>@/types\<close>, which
  is not part of the source at hand. The fields are those of section 3 of the
  specification (a task plus an optional precomputed \<^verbatim>\<open>roi\<close>); the component reads
  \<^verbatim>\<open>id\<close> (here \<open>task_id\<close>), \<^verbatim>\<open>title\<close>, \<^verbatim>\<open>notes\<close> (here \<open>task_notes\<close>),
  \<^verbatim>\<open>revenue\<close>, \<^verbatim>\<open>timeTaken\<close>, \<^verbatim>\<open>priority\<close>, \<^verbatim>\<open>status\<close> and \<^verbatim>\<open>roi\<close>, and writes none
  of them.
\<close>

record task =
  task_id :: string
  title :: string
  revenue :: rat
  timeTaken :: rat
  priority :: priority
  status :: string
  task_notes :: "string option"
  roi :: "rat option"

subsection \<open>The comparator of \<^verbatim>\<open>sortedTasks\<close>\<close>

text \<open>\<^verbatim>\<open>const priorityRank = { High: 3, Medium: 2, Low: 1 };\<close>\<close>

fun priorityRank :: "priority \<Rightarrow> int" where
  "priorityRank High = 3"
| "priorityRank Medium = 2"
| "priorityRank Low = 1"

text \<open>The nullish coalescing operator: \<^verbatim>\<open>v ?? d\<close>.\<close>

fun nullish :: "'a option \<Rightarrow> 'a \<Rightarrow> 'a" where
  "nullish None d = d"
| "nullish (Some v) d = v"

text \<open>
  \<^verbatim>\<open>String.prototype.localeCompare\<close> belongs to the host and depends on its locale. A
  collation is a total preorder on strings, and every total preorder is the order of
  a key: the parameter \<open>ck\<close> sends a string to its collation key in some linear order,
  and two strings compare as their keys do. Only the sign of the result is fixed by
  the language; the model returns \<open>-1\<close>, \<open>0\<close> or \<open>1\<close>.
\<close>

definition localeCompare :: "(string \<Rightarrow> 'k::linorder) \<Rightarrow> string \<Rightarrow> string \<Rightarrow> rat" where
  "localeCompare ck s t = (if ck s < ck t then - 1 else if ck t < ck s then 1 else 0)"

text \<open>
  The arrow function handed to \<^verbatim>\<open>sort\<close>:
  \<^verbatim>\<open>
  (a, b) => {
    const roiDiff = (b.roi ?? 0) - (a.roi ?? 0);
    if (roiDiff !== 0) return roiDiff;
    const priorityDiff = priorityRank[b.priority] - priorityRank[a.priority];
    if (priorityDiff !== 0) return priorityDiff;
    return a.title.localeCompare(b.title);
  }\<close>
\<close>

definition compareTasks :: "(string \<Rightarrow> 'k::linorder) \<Rightarrow> task \<Rightarrow> task \<Rightarrow> rat" where
  "compareTasks ck a b =
     (let roiDiff = nullish (roi b) 0 - nullish (roi a) 0 in
      if roiDiff \<noteq> 0 then roiDiff
      else
        let priorityDiff = priorityRank (priority b) - priorityRank (priority a) in
        if priorityDiff \<noteq> 0 then of_int priorityDiff
        else localeCompare ck (title a) (title b))"

subsection \<open>The host's \<^verbatim>\<open>Array.prototype.sort\<close>\<close>

text \<open>
  The language fixes the result of \<^verbatim>\<open>sort\<close> for a consistent comparator: the elements
  in an order the comparator agrees with (a negative result puts the first argument
  first), elements that compare as \<open>0\<close> in their order of the input (the sort is
  stable since ECMAScript 2019). A stable insertion sort computes that result;
  \<open>sortedTasks_unique\<close> below shows that, for the comparator of this program, no
  other list meets the description, so the choice of the algorithm is immaterial.
\<close>

fun insert_by :: "('a \<Rightarrow> 'a \<Rightarrow> rat) \<Rightarrow> 'a \<Rightarrow> 'a list \<Rightarrow> 'a list" where
  "insert_by cmp x [] = [x]"
| "insert_by cmp x (y # ys) = (if cmp x y \<le> 0 then x # y # ys else y # insert_by cmp x ys)"

fun array_sort :: "('a \<Rightarrow> 'a \<Rightarrow> rat) \<Rightarrow> 'a list \<Rightarrow> 'a list" where
  "array_sort cmp [] = []"
| "array_sort cmp (x # xs) = insert_by cmp x (array_sort cmp xs)"

text \<open>
  \<^verbatim>\<open>const sortedTasks = [...tasks].sort((a, b) => ...)\<close>, on the elements: the copy has
  the elements of \<^verbatim>\<open>tasks\<close> in their order, and is then sorted.
\<close>

definition sortedTasks :: "(string \<Rightarrow> 'k::linorder) \<Rightarrow> task list \<Rightarrow> task list" where
  "sortedTasks ck tasks = array_sort (compareTasks ck) tasks"

subsection \<open>Arrays in the heap\<close>

text \<open>
  \<^verbatim>\<open>sort\<close> works in place and returns the array it was called on, so what happens to
  \<^verbatim>\<open>tasks\<close> depends on which array is sorted. The heap is the list of the arrays
  allocated so far and a reference is an index into it. An operation on a reference
  that denotes no array returns \<open>None\<close>; a running program holds no such reference.
\<close>

type_synonym ref = nat
type_synonym heap = "task list list"

text \<open>\<^verbatim>\<open>[...r]\<close>: a fresh array with the elements of \<open>r\<close>.\<close>

definition array_spread :: "ref \<Rightarrow> heap \<Rightarrow> (ref \<times> heap) option" where
  "array_spread r h = (if r < length h then Some (length h, h @ [h ! r]) else None)"

text \<open>\<^verbatim>\<open>r.sort(cmp)\<close>: the array at \<open>r\<close> is overwritten, and \<open>r\<close> is returned.\<close>

definition array_sort_in_place ::
    "(task \<Rightarrow> task \<Rightarrow> rat) \<Rightarrow> ref \<Rightarrow> heap \<Rightarrow> (ref \<times> heap) option" where
  "array_sort_in_place cmp r h =
     (if r < length h then Some (r, h[r := array_sort cmp (h ! r)]) else None)"

definition sortedTasks_heap ::
    "(string \<Rightarrow> 'k::linorder) \<Rightarrow> ref \<Rightarrow> heap \<Rightarrow> (ref \<times> heap) option" where
  "sortedTasks_heap ck tasks h =
     (case array_spread tasks h of
        None \<Rightarrow> None
      | Some (copy, h1) \<Rightarrow> array_sort_in_place (compareTasks ck) copy h1)"

subsection \<open>Numbers\<close>

text \<open>
  A double is a finite value, a negative zero, an infinity or not-a-number. A finite
  value is held as the rational it denotes, \<open>Finite 0\<close> being the positive zero. Every
  double is a value of the type; arithmetic returns doubles only.
\<close>

datatype number = Finite rat | NegZero | PosInf | NegInf | NaN

fun is_finite :: "number \<Rightarrow> bool" where
  "is_finite (Finite q) = True"
| "is_finite NegZero = True"
| "is_finite PosInf = False"
| "is_finite NegInf = False"
| "is_finite NaN = False"

text \<open>The mathematical value of a finite number; both zeros have the value \<open>0\<close>.\<close>

fun real_value :: "number \<Rightarrow> rat" where
  "real_value (Finite q) = q"
| "real_value NegZero = 0"
| "real_value PosInf = 0"
| "real_value NegInf = 0"
| "real_value NaN = 0"

fun sign_bit :: "number \<Rightarrow> bool" where
  "sign_bit (Finite q) = (q < 0)"
| "sign_bit NegZero = True"
| "sign_bit PosInf = False"
| "sign_bit NegInf = True"
| "sign_bit NaN = False"

definition zero :: "bool \<Rightarrow> number" where
  "zero neg = (if neg then NegZero else Finite 0)"

definition infinity :: "bool \<Rightarrow> number" where
  "infinity neg = (if neg then NegInf else PosInf)"

text \<open>
  Rounding to the nearest double, ties to the even significand. For a magnitude
  \<open>a > 0\<close> with \<open>2^e \<le> a < 2^(e+1)\<close> the doubles around \<open>a\<close> are the multiples of
  \<open>2^(e-52)\<close>, and of \<open>2^(-1074)\<close> below the normal range; a result of \<open>2^1024\<close> or more
  overflows to an infinity, a result of \<open>0\<close> is a zero with the sign.
\<close>

definition ilog2 :: "rat \<Rightarrow> int" where
  "ilog2 a =
     (let (p, d) = quotient_of a; e = bitlen p - bitlen d
      in if 2 powi e \<le> a then e else e - 1)"

definition round_half_even :: "rat \<Rightarrow> int" where
  "round_half_even t =
     (let f = \<lfloor>t\<rfloor>; r = t - of_int f
      in if r < 1 / 2 then f else if 1 / 2 < r then f + 1 else if even f then f else f + 1)"

definition round_to_double :: "bool \<Rightarrow> rat \<Rightarrow> number" where
  "round_to_double neg a =
     (if a = 0 then zero neg
      else
        let e = max (ilog2 a) (- 1022);
            u = 2 powi (e - 52);
            v = of_int (round_half_even (a / u)) * u
        in if v = 0 then zero neg
           else if 2 powi 1024 \<le> v then infinity neg
           else Finite (if neg then - v else v))"

text \<open>
  The division \<^verbatim>\<open>x / y\<close> of the language: not-a-number from not-a-number, from two
  infinities and from two zeros; an infinity from an infinity or from a division by
  zero; a zero from a division by an infinity; otherwise the rounded quotient. The
  sign is negative where the signs of the operands differ.
\<close>

definition divide_num :: "number \<Rightarrow> number \<Rightarrow> number" where
  "divide_num x y =
     (if x = NaN \<or> y = NaN then NaN
      else
        let neg = (sign_bit x \<noteq> sign_bit y) in
        if \<not> is_finite x then (if \<not> is_finite y then NaN else infinity neg)
        else if \<not> is_finite y then zero neg
        else if real_value y = 0 then (if real_value x = 0 then NaN else infinity neg)
        else round_to_double neg (\<bar>real_value x\<bar> / \<bar>real_value y\<bar>))"

subsection \<open>The ROI column\<close>

text \<open>The decimal digits of a natural number, without leading zeros.\<close>

definition digit_char :: "nat \<Rightarrow> char" where
  "digit_char d = ''0123456789'' ! (d mod 10)"

fun digits :: "nat \<Rightarrow> string" where
  "digits n = (if n < 10 then [digit_char n] else digits (n div 10) @ [digit_char (n mod 10)])"

declare digits.simps [simp del]

text \<open>\<^verbatim>\<open>Number::toString\<close> of the numbers that are not finite.\<close>

fun toString_nonfinite :: "number \<Rightarrow> string" where
  "toString_nonfinite NaN = ''NaN''"
| "toString_nonfinite PosInf = ''Infinity''"
| "toString_nonfinite NegInf = ''-Infinity''"
| "toString_nonfinite x = ''''"

text \<open>
  \<^verbatim>\<open>Number::toString\<close> for a value of at least \<open>10^21\<close>, which the language prints in
  exponential notation: the significant digits \<open>d.ddd\<close>, then \<^verbatim>\<open>e+\<close> and the exponent.
  A double of that size is an integer. The model prints the digits of the integer
  exactly, where the host prints the shortest digits that read back as the same
  double; the two agree on a double of at most 15 significant digits, such as \<open>10^21\<close>.
\<close>

definition strip_zeros :: "string \<Rightarrow> string" where
  "strip_zeros s = rev (dropWhile (\<lambda>c. c = CHR ''0'') (rev s))"

definition toString_exp :: "rat \<Rightarrow> string" where
  "toString_exp x =
     (let ds = digits (nat \<lfloor>x\<rfloor>);
          n = length ds;
          s = strip_zeros ds
      in (if length s = 1 then s else take 1 s @ ''.'' @ drop 1 s) @ ''e+'' @ digits (n - 1))"

text \<open>
  \<^verbatim>\<open>Number.prototype.toFixed(f)\<close>, after the language definition, for \<open>f\<close> from \<open>0\<close> to
  \<open>100\<close> (the source passes \<open>2\<close>): a number that is not finite is printed by
  \<^verbatim>\<open>toString\<close>; the sign of the value is split off (a negative zero has the value \<open>0\<close>
  and no sign); a value of at least \<open>10^21\<close> is printed by \<^verbatim>\<open>toString\<close>; otherwise
  \<open>n\<close> is the integer with \<open>n / 10^f\<close> nearest to the value (the larger of two), its
  digits are padded with zeros to \<open>f + 1\<close> characters and the point goes before the
  last \<open>f\<close>.
\<close>

definition toFixed :: "nat \<Rightarrow> number \<Rightarrow> string" where
  "toFixed f num =
     (if \<not> is_finite num then toString_nonfinite num
      else
        let s = (if real_value num < 0 then ''-'' else '''');
            x = \<bar>real_value num\<bar>
        in if 10 ^ 21 \<le> x then s @ toString_exp x
           else
             let n = nat \<lfloor>x * 10 ^ f + 1 / 2\<rfloor>;
                 m = (if n = 0 then ''0'' else digits n);
                 m = (if f \<noteq> 0 then
                        let k = length m;
                            m = (if k \<le> f then replicate (f + 1 - k) CHR ''0'' @ m else m);
                            k = (if k \<le> f then f + 1 else k)
                        in take (k - f) m @ ''.'' @ drop (k - f) m
                      else m)
             in s @ m)"

text \<open>The em dash \<^verbatim>\<open>U+2014\<close> of the source, as the three bytes of its UTF-8 encoding.\<close>

definition dash :: string where
  "dash = [CHR 0xE2, CHR 0x80, CHR 0x94]"

text \<open>
  \<^verbatim>\<open>!v\<close> on a number that may be absent: true of the absent value, of the two zeros
  and of not-a-number.
\<close>

fun falsy :: "number option \<Rightarrow> bool" where
  "falsy None = True"
| "falsy (Some (Finite v)) = (v = 0)"
| "falsy (Some NegZero) = True"
| "falsy (Some NaN) = True"
| "falsy (Some PosInf) = False"
| "falsy (Some NegInf) = False"

text \<open>
  \<^verbatim>\<open>v <= 0\<close>. The absent value is never compared: \<^verbatim>\<open>!time\<close> is true of it and the
  disjunction is decided before.
\<close>

fun le_zero :: "number option \<Rightarrow> bool" where
  "le_zero None = False"
| "le_zero (Some (Finite v)) = (v \<le> 0)"
| "le_zero (Some NegZero) = True"
| "le_zero (Some NegInf) = True"
| "le_zero (Some PosInf) = False"
| "le_zero (Some NaN) = False"

text \<open>
  \<^verbatim>\<open>
  const calculateROI = (revenue: number, time: number): string => {
    if (!revenue || !time || time <= 0) return '\<emdash>';
    return (revenue / time).toFixed(2);
  };\<close>
\<close>

definition calculateROI :: "number option \<Rightarrow> number option \<Rightarrow> string" where
  "calculateROI r t =
     (if falsy r \<or> falsy t \<or> le_zero t then dash
      else case (r, t) of
             (Some x, Some y) \<Rightarrow> toFixed 2 (divide_num x y)
           | _ \<Rightarrow> dash)"

subsection \<open>Auxiliary definitions for the statements\<close>

text \<open>
  The sort key that the comparator compares by: the ROI with the default, negated,
  then the rank of the priority, negated, then the collation key of the title, in
  the lexicographic order of triples.
\<close>

definition rank_key :: "(string \<Rightarrow> 'k::linorder) \<Rightarrow> task \<Rightarrow> rat \<times> int \<times> 'k" where
  "rank_key ck t = (- nullish (roi t) 0, - priorityRank (priority t), ck (title t))"

text \<open>The task with the default written into its \<open>roi\<close> field.\<close>

definition roi_defaulted :: "task \<Rightarrow> task" where
  "roi_defaulted t = t\<lparr>roi := Some (nullish (roi t) 0)\<rparr>"

text \<open>
  A collation for the examples: strings compared by their code units, as the root
  locale does on upper-case ASCII letters.
\<close>

definition codepoint_key :: "string \<Rightarrow> string" where
  "codepoint_key s = s"

text \<open>Tasks for the examples; the fields that the ranking does not read are fixed.\<close>

definition example_task :: "string \<Rightarrow> string \<Rightarrow> priority \<Rightarrow> rat option \<Rightarrow> task" where
  "example_task i n p r =
     \<lparr>task_id = i, title = n, revenue = 100, timeTaken = 4, priority = p,
      status = ''Todo'', task_notes = None, roi = r\<rparr>"

definition tasks_missing_roi :: "task list" where
  "tasks_missing_roi =
     [example_task ''1'' ''Zeta'' High None, example_task ''2'' ''Mid'' Low (Some 8)]"

definition tasks_priority_tie :: "task list" where
  "tasks_priority_tie =
     [example_task ''1'' ''B'' Medium (Some 10), example_task ''2'' ''A'' High (Some 10)]"

definition tasks_full_chain :: "task list" where
  "tasks_full_chain =
     [example_task ''1'' ''Zeta'' High (Some 5), example_task ''2'' ''Alpha'' High (Some 5),
      example_task ''3'' ''Mid'' Low (Some 8)]"

text \<open>Two tasks that differ in their \<open>task_id\<close> only.\<close>

definition tasks_same_key :: "task list" where
  "tasks_same_key =
     [example_task ''1'' ''Same'' High (Some 5), example_task ''2'' ''Same'' High (Some 5)]"

section \<open>Properties of the ranking\<close>

subsection \<open>The comparator and the sort key\<close>

lemma compareTasks_le_iff: "compareTasks ck a b \<le> 0 \<longleftrightarrow> rank_key ck a \<le> rank_key ck b"
  by (auto simp: compareTasks_def Let_def localeCompare_def rank_key_def prod_le_def)

lemma compareTasks_eq_iff: "compareTasks ck a b = 0 \<longleftrightarrow> rank_key ck a = rank_key ck b"
  by (auto simp: compareTasks_def Let_def localeCompare_def rank_key_def)

lemma insert_by_insort_key:
  "insert_by (compareTasks ck) x ys = insort_key (rank_key ck) x ys"
  by (induction ys) (simp_all add: compareTasks_le_iff)

lemma sortedTasks_sort_key: "sortedTasks ck tasks = sort_key (rank_key ck) tasks"
  unfolding sortedTasks_def by (induction tasks) (simp_all add: insert_by_insort_key)

lemma sorted_sortedTasks: "sorted (map (rank_key ck) (sortedTasks ck tasks))"
  by (simp add: sortedTasks_sort_key)

lemma sortedTasks_nth_mono:
  assumes "i \<le> j" "j < length tasks"
  shows "rank_key ck (sortedTasks ck tasks ! i) \<le> rank_key ck (sortedTasks ck tasks ! j)"
proof -
  let ?ks = "map (rank_key ck) (sortedTasks ck tasks)"
  have "?ks ! i \<le> ?ks ! j"
    using assms sorted_sortedTasks [of ck tasks]
    by (intro sorted_nth_mono) (simp_all add: sortedTasks_sort_key)
  then show ?thesis using assms by (simp add: sortedTasks_sort_key)
qed

text \<open>
  The output is in the comparator's order and keeps the input order of the tasks that
  compare as \<open>0\<close>; it is the only permutation of the input that does.
\<close>

lemma sorted_wrt_sortedTasks:
  "sorted_wrt (\<lambda>a b. compareTasks ck a b \<le> 0) (sortedTasks ck tasks)"
  using sorted_sortedTasks [of ck tasks] by (simp add: sorted_map compareTasks_le_iff)

lemma sortedTasks_stable:
  "filter (\<lambda>b. compareTasks ck a b = 0) (sortedTasks ck tasks) =
   filter (\<lambda>b. compareTasks ck a b = 0) tasks"
proof -
  have eq: "(\<lambda>b. compareTasks ck a b = 0) = (\<lambda>b. rank_key ck b = rank_key ck a)"
    by (auto simp: compareTasks_eq_iff)
  show ?thesis
    unfolding eq sortedTasks_sort_key by (rule sort_key_stable)
qed

lemma sortedTasks_unique:
  assumes "mset ys = mset tasks"
    and "sorted_wrt (\<lambda>a b. compareTasks ck a b \<le> 0) ys"
    and "\<And>a. a \<in> set tasks \<Longrightarrow>
           filter (\<lambda>b. compareTasks ck a b = 0) ys = filter (\<lambda>b. compareTasks ck a b = 0) tasks"
  shows "ys = sortedTasks ck tasks"
proof -
  have "sort_key (rank_key ck) tasks = ys"
  proof (rule properties_for_sort_key)
    show "mset ys = mset tasks" by fact
    show "sorted (map (rank_key ck) ys)"
      using assms(2) by (simp add: sorted_map compareTasks_le_iff)
    show "filter (\<lambda>x. rank_key ck k = rank_key ck x) ys =
          filter (\<lambda>x. rank_key ck k = rank_key ck x) tasks" if "k \<in> set ys" for k
    proof -
      from that assms(1) have "k \<in> set tasks" by (metis set_mset_mset)
      from assms(3) [OF this] show ?thesis by (simp add: compareTasks_eq_iff)
    qed
  qed
  then show ?thesis by (simp add: sortedTasks_sort_key)
qed

text \<open>Where no two different tasks compare as \<open>0\<close>, the order alone fixes the output.\<close>

lemma filter_eq_replicate: "filter ((=) e) zs = replicate (count (mset zs) e) e"
  by (induction zs) auto

lemma sortedTasks_unique_sorted:
  assumes inj: "\<forall>a\<in>set xs. \<forall>b\<in>set xs. compareTasks ck a b = 0 \<longrightarrow> a = b"
    and perm: "mset zs = mset xs"
    and ord: "sorted_wrt (\<lambda>a b. compareTasks ck a b \<le> 0) zs"
  shows "zs = sortedTasks ck xs"
  using perm ord
proof (rule sortedTasks_unique)
  fix a
  assume a: "a \<in> set xs"
  have sets: "set zs = set xs" using perm by (metis set_mset_mset)
  have self: "compareTasks ck a a = 0" by (simp add: compareTasks_eq_iff)
  have eq: "compareTasks ck a b = 0 \<longleftrightarrow> a = b" if "b \<in> set xs" for b
    using inj a that self by blast
  have "filter (\<lambda>b. compareTasks ck a b = 0) zs = filter ((=) a) zs"
    by (rule filter_cong) (simp_all add: eq sets)
  also have "\<dots> = filter ((=) a) xs"
    by (simp add: filter_eq_replicate perm)
  also have "\<dots> = filter (\<lambda>b. compareTasks ck a b = 0) xs"
    by (rule filter_cong) (simp_all add: eq)
  finally show "filter (\<lambda>b. compareTasks ck a b = 0) zs =
                filter (\<lambda>b. compareTasks ck a b = 0) xs" .
qed

text \<open>A change of the tasks that the comparator does not see commutes with the sort.\<close>

lemma insert_by_map:
  assumes "\<And>a b. cmp (f a) (f b) = cmp a b"
  shows "insert_by cmp (f x) (map f ys) = map f (insert_by cmp x ys)"
  by (induction ys) (simp_all add: assms)

lemma array_sort_map:
  assumes "\<And>a b. cmp (f a) (f b) = cmp a b"
  shows "array_sort cmp (map f xs) = map f (array_sort cmp xs)"
  by (induction xs) (simp_all add: insert_by_map [of cmp f] assms)

lemma compareTasks_roi_defaulted:
  "compareTasks ck (roi_defaulted a) (roi_defaulted b) = compareTasks ck a b"
  by (simp add: compareTasks_def roi_defaulted_def)

subsection \<open>The examples, ranked\<close>

lemma sortedTasks_missing_roi:
  "sortedTasks codepoint_key tasks_missing_roi =
     [example_task ''2'' ''Mid'' Low (Some 8), example_task ''1'' ''Zeta'' High None]"
  by (simp add: tasks_missing_roi_def sortedTasks_def compareTasks_def example_task_def)

lemma sortedTasks_priority_tie:
  "sortedTasks codepoint_key tasks_priority_tie =
     [example_task ''2'' ''A'' High (Some 10), example_task ''1'' ''B'' Medium (Some 10)]"
  by (simp add: tasks_priority_tie_def sortedTasks_def compareTasks_def example_task_def)

text \<open>
  The scenario of the specification with the full chain: \<open>C\<close> first for its ROI, then
  \<open>Alpha\<close> before \<open>Zeta\<close>.
\<close>

lemma sortedTasks_full_chain:
  "sortedTasks codepoint_key tasks_full_chain =
     [example_task ''3'' ''Mid'' Low (Some 8), example_task ''2'' ''Alpha'' High (Some 5),
      example_task ''1'' ''Zeta'' High (Some 5)]"
  by (simp add: tasks_full_chain_def sortedTasks_def compareTasks_def example_task_def
      localeCompare_def codepoint_key_def)

lemma sortedTasks_same_key:
  "sortedTasks codepoint_key tasks_same_key = tasks_same_key"
  "sortedTasks codepoint_key (rev tasks_same_key) = rev tasks_same_key"
  by (simp_all add: tasks_same_key_def sortedTasks_def compareTasks_def example_task_def
      localeCompare_def codepoint_key_def)

subsection \<open>The order of the output\<close>

text \<open>
  Claim C1. The first key is the ROI, descending, with an absent \<open>roi\<close> read as \<open>0\<close>:
  whenever the task at position \<open>i\<close> of the output has a greater ROI (after the
  default) than the task at position \<open>j\<close>, then \<open>i\<close> comes before \<open>j\<close>. An absent ROI
  and an explicit \<open>0\<close> are on an equal footing: writing the default into every task of
  the input changes nothing in the ranking but that field.
\<close>

theorem rank_roi_descending:
  "(\<forall>i j. i < length tasks \<and> j < length tasks \<and>
       nullish (roi (sortedTasks ck tasks ! j)) 0 < nullish (roi (sortedTasks ck tasks ! i)) 0
       \<longrightarrow> i < j) \<and>
   sortedTasks ck (map roi_defaulted tasks) = map roi_defaulted (sortedTasks ck tasks)"
proof (intro conjI allI impI)
  fix i j
  assume a: "i < length tasks \<and> j < length tasks \<and>
       nullish (roi (sortedTasks ck tasks ! j)) 0 < nullish (roi (sortedTasks ck tasks ! i)) 0"
  show "i < j"
  proof (rule ccontr)
    assume "\<not> i < j"
    then have "j \<le> i" by simp
    with a have "rank_key ck (sortedTasks ck tasks ! j) \<le> rank_key ck (sortedTasks ck tasks ! i)"
      by (intro sortedTasks_nth_mono) simp_all
    with a show False by (auto simp: rank_key_def prod_le_def)
  qed
next
  show "sortedTasks ck (map roi_defaulted tasks) = map roi_defaulted (sortedTasks ck tasks)"
    unfolding sortedTasks_def
    by (rule array_sort_map) (rule compareTasks_roi_defaulted)
qed

text \<open>
  The task without ROI and the task with ROI \<open>8\<close>: the second is at position \<open>0\<close> of
  the output, the first at position \<open>1\<close>.
\<close>

theorem rank_roi_descending_witness:
  "(0::nat) < length tasks_missing_roi \<and> (1::nat) < length tasks_missing_roi \<and>
   nullish (roi (sortedTasks codepoint_key tasks_missing_roi ! 1)) 0
     < nullish (roi (sortedTasks codepoint_key tasks_missing_roi ! 0)) 0 \<and>
   (0::nat) < 1"
proof -
  have h: "(0::nat) < length tasks_missing_roi \<and> (1::nat) < length tasks_missing_roi \<and>
      nullish (roi (sortedTasks codepoint_key tasks_missing_roi ! 1)) 0
        < nullish (roi (sortedTasks codepoint_key tasks_missing_roi ! 0)) 0"
    by (simp add: sortedTasks_missing_roi) (simp add: tasks_missing_roi_def example_task_def)
  with rank_roi_descending [of tasks_missing_roi codepoint_key] have "(0::nat) < 1"
    by blast
  with h show ?thesis by blast
qed

text \<open>
  Claim C4. Among tasks of equal ROI (after the default) the priority decides, High
  before Medium before Low by the table \<open>priorityRank\<close>: whenever the task at position
  \<open>i\<close> of the output has the ROI of the task at position \<open>j\<close> and a greater rank, then
  \<open>i\<close> comes before \<open>j\<close>. The input of task \<open>B\<close> (ROI 10, Medium) followed by task \<open>A\<close>
  (ROI 10, High) is ranked \<open>A\<close>, \<open>B\<close>, whatever the other fields and the collation.
\<close>

theorem rank_priority_tiebreak:
  "(\<forall>i j. i < length tasks \<and> j < length tasks \<and>
       nullish (roi (sortedTasks ck tasks ! i)) 0 = nullish (roi (sortedTasks ck tasks ! j)) 0 \<and>
       priorityRank (priority (sortedTasks ck tasks ! j)) <
         priorityRank (priority (sortedTasks ck tasks ! i))
       \<longrightarrow> i < j) \<and>
   sortedTasks ck
     [b\<lparr>title := ''B'', roi := Some 10, priority := Medium\<rparr>,
      a\<lparr>title := ''A'', roi := Some 10, priority := High\<rparr>]
   = [a\<lparr>title := ''A'', roi := Some 10, priority := High\<rparr>,
      b\<lparr>title := ''B'', roi := Some 10, priority := Medium\<rparr>]"
proof (intro conjI allI impI)
  fix i j
  assume a: "i < length tasks \<and> j < length tasks \<and>
       nullish (roi (sortedTasks ck tasks ! i)) 0 = nullish (roi (sortedTasks ck tasks ! j)) 0 \<and>
       priorityRank (priority (sortedTasks ck tasks ! j)) <
         priorityRank (priority (sortedTasks ck tasks ! i))"
  show "i < j"
  proof (rule ccontr)
    assume "\<not> i < j"
    then have "j \<le> i" by simp
    with a have "rank_key ck (sortedTasks ck tasks ! j) \<le> rank_key ck (sortedTasks ck tasks ! i)"
      by (intro sortedTasks_nth_mono) simp_all
    with a show False by (auto simp: rank_key_def prod_le_def)
  qed
next
  show "sortedTasks ck
     [b\<lparr>title := ''B'', roi := Some 10, priority := Medium\<rparr>,
      a\<lparr>title := ''A'', roi := Some 10, priority := High\<rparr>]
   = [a\<lparr>title := ''A'', roi := Some 10, priority := High\<rparr>,
      b\<lparr>title := ''B'', roi := Some 10, priority := Medium\<rparr>]"
    by (simp add: sortedTasks_def compareTasks_def)
qed

theorem rank_priority_tiebreak_witness:
  "(0::nat) < length tasks_priority_tie \<and> (1::nat) < length tasks_priority_tie \<and>
   nullish (roi (sortedTasks codepoint_key tasks_priority_tie ! 0)) 0
     = nullish (roi (sortedTasks codepoint_key tasks_priority_tie ! 1)) 0 \<and>
   priorityRank (priority (sortedTasks codepoint_key tasks_priority_tie ! 1))
     < priorityRank (priority (sortedTasks codepoint_key tasks_priority_tie ! 0)) \<and>
   (0::nat) < 1"
proof -
  have h: "(0::nat) < length tasks_priority_tie \<and> (1::nat) < length tasks_priority_tie \<and>
      nullish (roi (sortedTasks codepoint_key tasks_priority_tie ! 0)) 0
        = nullish (roi (sortedTasks codepoint_key tasks_priority_tie ! 1)) 0 \<and>
      priorityRank (priority (sortedTasks codepoint_key tasks_priority_tie ! 1))
        < priorityRank (priority (sortedTasks codepoint_key tasks_priority_tie ! 0))"
    by (simp add: sortedTasks_priority_tie) (simp add: tasks_priority_tie_def example_task_def)
  with rank_priority_tiebreak [of tasks_priority_tie codepoint_key] have "(0::nat) < 1"
    by blast
  with h show ?thesis by blast
qed

text \<open>
  Claim C5, as amended. Among tasks of equal ROI (after the default) and equal
  priority whose titles do not compare as equal under the collation, the task at
  position \<open>i\<close> of the output comes before the task at position \<open>j\<close> if and only if
  its title sorts before the other title.
\<close>

theorem rank_title_tiebreak:
  "\<forall>i j. i < length tasks \<and> j < length tasks \<and>
       nullish (roi (sortedTasks ck tasks ! i)) 0 = nullish (roi (sortedTasks ck tasks ! j)) 0 \<and>
       priority (sortedTasks ck tasks ! i) = priority (sortedTasks ck tasks ! j) \<and>
       localeCompare ck (title (sortedTasks ck tasks ! i)) (title (sortedTasks ck tasks ! j)) \<noteq> 0
       \<longrightarrow> (i < j \<longleftrightarrow>
            localeCompare ck (title (sortedTasks ck tasks ! i)) (title (sortedTasks ck tasks ! j)) < 0)"
proof (intro allI impI)
  fix i j
  let ?a = "sortedTasks ck tasks ! i" and ?b = "sortedTasks ck tasks ! j"
  assume a: "i < length tasks \<and> j < length tasks \<and>
       nullish (roi ?a) 0 = nullish (roi ?b) 0 \<and> priority ?a = priority ?b \<and>
       localeCompare ck (title ?a) (title ?b) \<noteq> 0"
  then have ne: "ck (title ?a) \<noteq> ck (title ?b)"
    by (auto simp: localeCompare_def)
  show "i < j \<longleftrightarrow> localeCompare ck (title ?a) (title ?b) < 0"
  proof
    assume "i < j"
    then have "rank_key ck ?a \<le> rank_key ck ?b"
      using a by (intro sortedTasks_nth_mono) simp_all
    with a ne show "localeCompare ck (title ?a) (title ?b) < 0"
      by (auto simp: rank_key_def prod_le_def localeCompare_def)
  next
    assume lt: "localeCompare ck (title ?a) (title ?b) < 0"
    show "i < j"
    proof (rule ccontr)
      assume "\<not> i < j"
      then have "rank_key ck ?b \<le> rank_key ck ?a"
        using a by (intro sortedTasks_nth_mono) simp_all
      with a lt show False
        by (auto simp: rank_key_def prod_le_def localeCompare_def split: if_splits)
    qed
  qed
qed

text \<open>Positions \<open>1\<close> and \<open>2\<close> of the ranked full chain: \<open>Alpha\<close> and \<open>Zeta\<close>.\<close>

theorem rank_title_tiebreak_witness:
  "(1::nat) < length tasks_full_chain \<and> (2::nat) < length tasks_full_chain \<and>
   nullish (roi (sortedTasks codepoint_key tasks_full_chain ! 1)) 0
     = nullish (roi (sortedTasks codepoint_key tasks_full_chain ! 2)) 0 \<and>
   priority (sortedTasks codepoint_key tasks_full_chain ! 1)
     = priority (sortedTasks codepoint_key tasks_full_chain ! 2) \<and>
   localeCompare codepoint_key (title (sortedTasks codepoint_key tasks_full_chain ! 1))
     (title (sortedTasks codepoint_key tasks_full_chain ! 2)) \<noteq> 0 \<and>
   ((1::nat) < 2 \<longleftrightarrow>
      localeCompare codepoint_key (title (sortedTasks codepoint_key tasks_full_chain ! 1))
        (title (sortedTasks codepoint_key tasks_full_chain ! 2)) < 0)"
proof -
  have h: "(1::nat) < length tasks_full_chain \<and> (2::nat) < length tasks_full_chain \<and>
      nullish (roi (sortedTasks codepoint_key tasks_full_chain ! 1)) 0
        = nullish (roi (sortedTasks codepoint_key tasks_full_chain ! 2)) 0 \<and>
      priority (sortedTasks codepoint_key tasks_full_chain ! 1)
        = priority (sortedTasks codepoint_key tasks_full_chain ! 2) \<and>
      localeCompare codepoint_key (title (sortedTasks codepoint_key tasks_full_chain ! 1))
        (title (sortedTasks codepoint_key tasks_full_chain ! 2)) \<noteq> 0"
    by (simp add: sortedTasks_full_chain)
       (simp add: tasks_full_chain_def example_task_def localeCompare_def codepoint_key_def)
  with rank_title_tiebreak [of tasks_full_chain codepoint_key]
  have "(1::nat) < 2 \<longleftrightarrow>
      localeCompare codepoint_key (title (sortedTasks codepoint_key tasks_full_chain ! 1))
        (title (sortedTasks codepoint_key tasks_full_chain ! 2)) < 0"
    by blast
  with h show ?thesis by blast
qed

text \<open>
  The claim without the amendment fails on two tasks with one title: the first
  stays before the second, though its title does not sort before the other.
\<close>

theorem rank_title_tiebreak_counterexample:
  "nullish (roi (sortedTasks codepoint_key tasks_same_key ! 0)) 0
     = nullish (roi (sortedTasks codepoint_key tasks_same_key ! 1)) 0 \<and>
   priority (sortedTasks codepoint_key tasks_same_key ! 0)
     = priority (sortedTasks codepoint_key tasks_same_key ! 1) \<and>
   (0::nat) < 1 \<and>
   \<not> localeCompare codepoint_key (title (sortedTasks codepoint_key tasks_same_key ! 0))
       (title (sortedTasks codepoint_key tasks_same_key ! 1)) < 0"
  by (simp add: sortedTasks_same_key)
     (simp add: tasks_same_key_def example_task_def localeCompare_def)

subsection \<open>Independence of the input order\<close>

text \<open>
  Claim C6, as amended. Let no two different tasks of the input compare as \<open>0\<close>, that
  is, tie on the ROI (after the default), the priority and the title under the
  collation. Then two inputs that are permutations of one multiset of tasks have the
  same ranking, and the ranking does not depend on the stability of the sort: every
  permutation of the input that is in the comparator's order is the output.
\<close>

theorem rank_order_independent:
  assumes "\<forall>a\<in>set xs. \<forall>b\<in>set xs. compareTasks ck a b = 0 \<longrightarrow> a = b"
  shows "(mset ys = mset xs \<longrightarrow> sortedTasks ck ys = sortedTasks ck xs) \<and>
         (mset zs = mset xs \<and> sorted_wrt (\<lambda>a b. compareTasks ck a b \<le> 0) zs
            \<longrightarrow> zs = sortedTasks ck xs)"
proof (intro conjI impI)
  assume "mset ys = mset xs"
  then have "mset (sortedTasks ck ys) = mset xs"
    by (simp add: sortedTasks_sort_key)
  with assms show "sortedTasks ck ys = sortedTasks ck xs"
    using sorted_wrt_sortedTasks by (rule sortedTasks_unique_sorted)
next
  assume "mset zs = mset xs \<and> sorted_wrt (\<lambda>a b. compareTasks ck a b \<le> 0) zs"
  then have "mset zs = mset xs" and "sorted_wrt (\<lambda>a b. compareTasks ck a b \<le> 0) zs"
    by blast+
  with assms show "zs = sortedTasks ck xs"
    by (rule sortedTasks_unique_sorted)
qed

text \<open>The tasks \<open>B\<close> and \<open>A\<close> of the priority scenario, in both orders.\<close>

theorem rank_order_independent_witness:
  "compareTasks codepoint_key (tasks_priority_tie ! 0) (tasks_priority_tie ! 1) \<noteq> 0 \<and>
   compareTasks codepoint_key (tasks_priority_tie ! 1) (tasks_priority_tie ! 0) \<noteq> 0 \<and>
   mset (rev tasks_priority_tie) = mset tasks_priority_tie \<and>
   sortedTasks codepoint_key (rev tasks_priority_tie) = sortedTasks codepoint_key tasks_priority_tie"
proof -
  have inj: "\<forall>a\<in>set tasks_priority_tie. \<forall>b\<in>set tasks_priority_tie.
      compareTasks codepoint_key a b = 0 \<longrightarrow> a = b"
    by (simp add: tasks_priority_tie_def example_task_def compareTasks_def)
  have perm: "mset (rev tasks_priority_tie) = mset tasks_priority_tie"
    by simp
  from rank_order_independent [OF inj, of "rev tasks_priority_tie"] perm
  have "sortedTasks codepoint_key (rev tasks_priority_tie) =
        sortedTasks codepoint_key tasks_priority_tie"
    by blast
  moreover
  have "compareTasks codepoint_key (tasks_priority_tie ! 0) (tasks_priority_tie ! 1) \<noteq> 0"
    and "compareTasks codepoint_key (tasks_priority_tie ! 1) (tasks_priority_tie ! 0) \<noteq> 0"
    by (simp_all add: tasks_priority_tie_def example_task_def compareTasks_def)
  ultimately show ?thesis using perm by blast
qed

text \<open>
  The claim without the amendment fails on the two tasks that differ in their
  \<open>task_id\<close> only: each of the two orders of the input is its own ranking.
\<close>

theorem rank_order_independent_counterexample:
  "mset (rev tasks_same_key) = mset tasks_same_key \<and>
   sortedTasks codepoint_key (rev tasks_same_key) \<noteq> sortedTasks codepoint_key tasks_same_key"
  by (simp add: sortedTasks_same_key) (simp add: tasks_same_key_def example_task_def)

subsection \<open>Idempotence and permutation\<close>

text \<open>
  Claim C7. Ranking is idempotent: the ranking of a ranked sequence is that sequence.
\<close>

theorem rank_idempotent: "sortedTasks ck (sortedTasks ck tasks) = sortedTasks ck tasks"
  using sort_key_id_if_sorted [of "rank_key ck" "sort_key (rank_key ck) tasks"]
  by (simp add: sortedTasks_sort_key)

text \<open>
  Claim C9. The output is a permutation of the input: the same multiset of tasks, and
  so the same length. The empty sequence is ranked as the empty sequence and a
  sequence of one task as itself.
\<close>

theorem rank_permutation:
  "mset (sortedTasks ck tasks) = mset tasks \<and>
   length (sortedTasks ck tasks) = length tasks \<and>
   sortedTasks ck [] = [] \<and>
   sortedTasks ck [t] = [t]"
  by (simp add: sortedTasks_sort_key)

subsection \<open>The input array is left alone\<close>

text \<open>Sorting in place overwrites the array that it is called on.\<close>

lemma array_sort_in_place_overwrites:
  assumes "r < length h"
  shows "\<exists>h'. array_sort_in_place cmp r h = Some (r, h') \<and> h' ! r = array_sort cmp (h ! r)"
  using assms by (simp add: array_sort_in_place_def)

text \<open>
  Claim C8. The ranking is a new sequence and the input is not changed. In a heap
  where \<open>tasks\<close> denotes an array, \<open>sortedTasks\<close> returns a reference that was not
  allocated before, hence not \<open>tasks\<close>; the new heap is the old one with one more
  array, the ranking of the elements of \<open>tasks\<close>; the array \<open>tasks\<close>, as every array
  of the old heap, holds the elements it held, in their order.
\<close>

theorem sortedTasks_heap_frame:
  assumes "tasks < length h"
  shows "sortedTasks_heap ck tasks h = Some (length h, h @ [sortedTasks ck (h ! tasks)]) \<and>
         length h \<noteq> tasks \<and>
         (h @ [sortedTasks ck (h ! tasks)]) ! tasks = h ! tasks \<and>
         take (length h) (h @ [sortedTasks ck (h ! tasks)]) = h"
  using assms
  by (simp add: sortedTasks_heap_def array_spread_def array_sort_in_place_def sortedTasks_def
      nth_append)

theorem sortedTasks_heap_frame_witness:
  "(0::nat) < length [tasks_priority_tie] \<and>
   sortedTasks_heap codepoint_key 0 [tasks_priority_tie] =
     Some (1, [tasks_priority_tie,
               [example_task ''2'' ''A'' High (Some 10), example_task ''1'' ''B'' Medium (Some 10)]])"
proof -
  have h: "(0::nat) < length [tasks_priority_tie]" by simp
  from sortedTasks_heap_frame [OF h, of codepoint_key]
  have "sortedTasks_heap codepoint_key 0 [tasks_priority_tie] =
      Some (length [tasks_priority_tie],
            [tasks_priority_tie] @ [sortedTasks codepoint_key ([tasks_priority_tie] ! 0)])"
    by blast
  then have "sortedTasks_heap codepoint_key 0 [tasks_priority_tie] =
     Some (1, [tasks_priority_tie,
               [example_task ''2'' ''A'' High (Some 10), example_task ''1'' ''B'' Medium (Some 10)]])"
    by (simp add: sortedTasks_priority_tie)
  with h show ?thesis by blast
qed

section \<open>Properties of the ROI column\<close>

subsection \<open>Powers of two and the binary exponent\<close>

lemma powi_mono: "e \<le> e' \<Longrightarrow> (2::rat) powi e \<le> 2 powi e'"
  by (rule power_int_increasing) simp_all

lemma powi_pos: "0 < (2::rat) powi e"
  by simp

lemma of_int_less_pow: "0 < p \<Longrightarrow> (of_int p :: rat) < 2 powi (bitlen p)"
proof -
  assume "0 < p"
  then have "p < 2 ^ nat (bitlen p)" using bitlen_bounds by blast
  then have "(of_int p :: rat) < of_int (2 ^ nat (bitlen p))" by (simp only: of_int_less_iff)
  also have "\<dots> = 2 powi (bitlen p)"
    using bitlen_nonneg [of p] by (simp add: power_int_def)
  finally show ?thesis .
qed

lemma pow_le_of_int: "0 < p \<Longrightarrow> 2 powi (bitlen p - 1) \<le> (of_int p :: rat)"
proof -
  assume p: "0 < p"
  then have "2 ^ nat (bitlen p - 1) \<le> p" using bitlen_bounds by blast
  then have "(of_int (2 ^ nat (bitlen p - 1)) :: rat) \<le> of_int p" by (simp only: of_int_le_iff)
  then have "(2::rat) ^ nat (bitlen p - 1) \<le> of_int p" by simp
  moreover have "1 \<le> bitlen p" using p by (simp add: bitlen_alt_def)
  then have "(2::rat) powi (bitlen p - 1) = 2 ^ nat (bitlen p - 1)"
    by (simp add: power_int_def)
  ultimately show ?thesis by simp
qed

lemma floor_rat_numeral: "\<lfloor>numeral a / numeral b :: rat\<rfloor> = numeral a div numeral b"
  by (metis floor_divide_of_int_eq of_int_numeral)

text \<open>\<open>ilog2 a\<close> is the exponent of the binade of \<open>a\<close>.\<close>

lemma ilog2_bounds:
  assumes "0 < a"
  shows "2 powi (ilog2 a) \<le> a \<and> a < 2 powi (ilog2 a + 1)"
proof -
  obtain p d where pd: "quotient_of a = (p, d)" by (cases "quotient_of a")
  then have d: "0 < d" and a: "a = of_int p / of_int d"
    by (simp_all add: quotient_of_denom_pos quotient_of_div)
  with assms have p: "0 < p" by (simp add: zero_less_divide_iff)
  define e where "e = bitlen p - bitlen d"
  have il: "ilog2 a = (if 2 powi e \<le> a then e else e - 1)"
    by (simp add: ilog2_def pd e_def)
  have up: "a < 2 powi (e + 1)"
  proof -
    have "of_int p < (2::rat) powi (bitlen p)" using p by (rule of_int_less_pow)
    also have "\<dots> = 2 powi (e + 1) * 2 powi (bitlen d - 1)"
      by (simp add: e_def power_int_add [symmetric])
    also have "\<dots> \<le> 2 powi (e + 1) * of_int d"
      using pow_le_of_int [OF d] by (intro mult_left_mono) simp_all
    finally show ?thesis using d by (simp add: a pos_divide_less_eq)
  qed
  have lo: "2 powi (e - 1) \<le> a"
  proof -
    have "2 powi (e - 1) * (of_int d :: rat) \<le> 2 powi (e - 1) * 2 powi (bitlen d)"
      using of_int_less_pow [OF d] by (intro mult_left_mono) simp_all
    also have "\<dots> = 2 powi (bitlen p - 1)"
      by (simp add: e_def power_int_add [symmetric])
    also have "\<dots> \<le> of_int p" using p by (rule pow_le_of_int)
    finally show ?thesis using d by (simp add: a pos_le_divide_eq)
  qed
  show ?thesis
  proof (cases "2 powi e \<le> a")
    case True
    with up il show ?thesis by simp
  next
    case False
    with lo il show ?thesis by simp
  qed
qed

lemma ilog2_unique:
  assumes "2 powi e \<le> a" and "a < 2 powi (e + 1)"
  shows "ilog2 a = e"
proof -
  have "0 < a" using assms(1) powi_pos [of e] by linarith
  from ilog2_bounds [OF this]
  have b: "2 powi (ilog2 a) \<le> a" "a < 2 powi (ilog2 a + 1)" by simp_all
  have "\<not> ilog2 a < e"
  proof
    assume "ilog2 a < e"
    then have "(2::rat) powi (ilog2 a + 1) \<le> 2 powi e" by (intro powi_mono) simp
    with b(2) assms(1) show False by linarith
  qed
  moreover have "\<not> e < ilog2 a"
  proof
    assume "e < ilog2 a"
    then have "(2::rat) powi (e + 1) \<le> 2 powi (ilog2 a)" by (intro powi_mono) simp
    with b(1) assms(2) show False by linarith
  qed
  ultimately show ?thesis by simp
qed

subsection \<open>Rounding\<close>

lemma round_half_even_near: "\<bar>of_int (round_half_even t) - t\<bar> \<le> 1 / 2"
proof -
  have "of_int \<lfloor>t\<rfloor> \<le> t" and "t < of_int \<lfloor>t\<rfloor> + 1" by linarith+
  then show ?thesis by (auto simp: round_half_even_def Let_def abs_le_iff)
qed

lemma round_half_even_ge: "of_int k \<le> t \<Longrightarrow> k \<le> round_half_even t"
proof -
  assume "of_int k \<le> t"
  then have "k \<le> \<lfloor>t\<rfloor>" by (simp add: le_floor_iff)
  then show ?thesis by (auto simp: round_half_even_def Let_def)
qed

lemma round_half_even_le: "t \<le> of_int k \<Longrightarrow> round_half_even t \<le> k"
proof -
  assume t: "t \<le> of_int k"
  show ?thesis
  proof (cases "t = of_int k")
    case True
    then show ?thesis by (simp add: round_half_even_def)
  next
    case False
    with t have "t < of_int k" by simp
    then have "\<lfloor>t\<rfloor> < k" by (simp add: floor_less_iff)
    then show ?thesis by (auto simp: round_half_even_def Let_def)
  qed
qed

text \<open>Within the normal range and below the largest binade, the result is finite.\<close>

lemma round_to_double_normal:
  assumes lo: "2 powi e \<le> a" and hi: "a < 2 powi (e + 1)"
    and e: "- 1022 \<le> e" "e \<le> 1022"
  shows "round_to_double neg a =
           Finite ((if neg then - 1 else 1) *
                   (of_int (round_half_even (a / 2 powi (e - 52))) * 2 powi (e - 52)))"
proof -
  define u :: rat where "u = 2 powi (e - 52)"
  define m where "m = round_half_even (a / u)"
  have u: "0 < u" by (simp add: u_def)
  have a: "0 < a" using lo powi_pos [of e] by linarith
  have il: "ilog2 a = e" using lo hi by (rule ilog2_unique)
  have "2 powi e = 2 ^ 52 * u"
    by (simp add: u_def power_int_diff)
  with lo u have "of_int (2 ^ 52) \<le> a / u" by (simp add: pos_le_divide_eq)
  then have m_lo: "2 ^ 52 \<le> m" unfolding m_def by (rule round_half_even_ge)
  have "2 powi (e + 1) = 2 ^ 53 * u"
    by (simp add: u_def power_int_diff power_int_add)
  with hi u have "a / u \<le> of_int (2 ^ 53)" by (simp add: pos_divide_le_eq)
  then have m_hi: "m \<le> 2 ^ 53" unfolding m_def by (rule round_half_even_le)
  have pos: "0 < of_int m * u" using m_lo u by simp
  have "of_int m * u \<le> of_int (2 ^ 53) * u"
    using m_hi u by (intro mult_right_mono) (simp_all only: of_int_le_iff)
  also have "\<dots> = 2 powi (e + 1)" by (simp add: u_def power_int_diff power_int_add)
  also have "\<dots> \<le> 2 powi 1023" using e by (intro powi_mono) simp
  also have "\<dots> < (2::rat) powi 1024" by simp
  finally have small: "\<not> 2 powi 1024 \<le> of_int m * u" by simp
  have "m \<noteq> 0" using m_lo by auto
  with a e pos small show ?thesis
    by (simp add: round_to_double_def il Let_def u_def [symmetric] m_def [symmetric])
qed

text \<open>A finite result is within half a unit in the last place.\<close>

lemma round_to_double_accuracy:
  assumes "0 < a" and "is_finite (round_to_double neg a)"
  shows "\<bar>real_value (round_to_double neg a) - (if neg then - a else a)\<bar>
           \<le> 2 powi (max (ilog2 a) (- 1022) - 53)"
proof -
  define u :: rat where "u = 2 powi (max (ilog2 a) (- 1022) - 52)"
  define m where "m = round_half_even (a / u)"
  have u: "0 < u" by (simp add: u_def)
  have v: "real_value (round_to_double neg a) = (if neg then - (of_int m * u) else of_int m * u)"
    using assms
    by (auto simp: round_to_double_def Let_def u_def [symmetric] m_def [symmetric] zero_def
        infinity_def split: if_splits)
  have "\<bar>of_int m - a / u\<bar> \<le> 1 / 2"
    unfolding m_def by (rule round_half_even_near)
  then have "\<bar>of_int m - a / u\<bar> * u \<le> 1 / 2 * u"
    using u by (intro mult_right_mono) simp_all
  moreover have "of_int m * u - a = (of_int m - a / u) * u"
    using u by (simp add: left_diff_distrib)
  then have "\<bar>of_int m * u - a\<bar> = \<bar>of_int m - a / u\<bar> * u"
    using u by (simp add: abs_mult)
  ultimately have "\<bar>of_int m * u - a\<bar> \<le> u / 2"
    by simp
  moreover have "u / 2 = 2 powi (max (ilog2 a) (- 1022) - 53)"
    by (simp add: u_def power_int_diff)
  moreover have "\<bar>- (of_int m * u) - (- a)\<bar> = \<bar>of_int m * u - a\<bar>"
    by (simp add: abs_minus_commute)
  ultimately show ?thesis by (simp add: v)
qed

text \<open>The quotients of the examples.\<close>

lemma divide_100_4: "divide_num (Finite 100) (Finite 4) = Finite 25"
  by (simp add: divide_num_def round_to_double_normal [of 4] round_half_even_def Let_def
      floor_rat_numeral)

lemma divide_7_3:
  "divide_num (Finite 7) (Finite 3) = Finite (5254199565265579 / 2251799813685248)"
  by (simp add: divide_num_def round_to_double_normal [of 1] round_half_even_def Let_def
      floor_rat_numeral)

lemma divide_minus_5_2: "divide_num (Finite (- 5)) (Finite 2) = Finite (- (5 / 2))"
  by (simp add: divide_num_def round_to_double_normal [of 1] round_half_even_def Let_def
      floor_rat_numeral)

lemma divide_10_21: "divide_num (Finite (10 ^ 21)) (Finite 1) = Finite (10 ^ 21)"
  by (simp add: divide_num_def round_to_double_normal [of 69] round_half_even_def Let_def
      floor_rat_numeral)

lemma divide_minus_10_21: "divide_num (Finite (- (10 ^ 21))) (Finite 1) = Finite (- (10 ^ 21))"
  by (simp add: divide_num_def round_to_double_normal [of 69] round_half_even_def Let_def
      floor_rat_numeral)

text \<open>
  A quotient is exact up to the rounding: for finite operands and a finite result
  the error is at most the quotient over \<open>2^53\<close>, or \<open>2^(-1075)\<close> below the normal
  range.
\<close>

lemma divide_num_accuracy:
  assumes "x \<noteq> 0" and "y \<noteq> 0" and "is_finite (divide_num (Finite x) (Finite y))"
  shows "\<bar>real_value (divide_num (Finite x) (Finite y)) - x / y\<bar>
           \<le> max (\<bar>x / y\<bar> / 2 ^ 53) (1 / 2 ^ 1075)"
proof -
  define a where "a = \<bar>x\<bar> / \<bar>y\<bar>"
  define neg where "neg = ((x < 0) \<noteq> (y < 0))"
  have a: "0 < a" using assms(1,2) by (simp add: a_def)
  have q: "divide_num (Finite x) (Finite y) = round_to_double neg a"
    using assms(2) by (simp add: divide_num_def a_def neg_def)
  have xy: "x / y = (if neg then - a else a)"
    using assms(1,2) by (auto simp: a_def neg_def abs_if)
  have "\<bar>real_value (round_to_double neg a) - (if neg then - a else a)\<bar>
          \<le> 2 powi (max (ilog2 a) (- 1022) - 53)"
    using a assms(3) unfolding q by (rule round_to_double_accuracy)
  also have "\<dots> \<le> max (a / 2 ^ 53) (1 / 2 ^ 1075)"
  proof (cases "- 1022 \<le> ilog2 a")
    case True
    then have "(2::rat) powi (max (ilog2 a) (- 1022) - 53) = 2 powi (ilog2 a) / 2 ^ 53"
      by (simp add: max_def power_int_diff)
    also have "\<dots> \<le> a / 2 ^ 53"
      using ilog2_bounds [OF a] by (simp add: divide_right_mono)
    finally show ?thesis by (simp only: le_max_iff_disj simp_thms)
  next
    case False
    then have "max (ilog2 a) (- 1022) - 53 = - 1075"
      by (simp add: max_def)
    then have "(2::rat) powi (max (ilog2 a) (- 1022) - 53) = 1 / 2 ^ 1075"
      by (simp only: power_int_minus power_int_numeral inverse_eq_divide)
    then show ?thesis by (simp only: le_max_iff_disj order_refl simp_thms)
  qed
  finally have fin: "\<bar>real_value (round_to_double neg a) - (if neg then - a else a)\<bar>
      \<le> max (a / 2 ^ 53) (1 / 2 ^ 1075)" .
  have e1: "\<bar>real_value (divide_num (Finite x) (Finite y)) - x / y\<bar> =
      \<bar>real_value (round_to_double neg a) - (if neg then - a else a)\<bar>"
    by (simp only: q xy)
  have e2: "max (\<bar>x / y\<bar> / 2 ^ 53) (1 / 2 ^ 1075) = max (a / 2 ^ 53) (1 / 2 ^ 1075)"
    by (simp only: a_def abs_divide)
  show ?thesis unfolding e1 e2 by (rule fin)
qed

subsection \<open>Decimal digits and the fixed-point notation\<close>

lemma digits_small: "n < 10 \<Longrightarrow> digits n = [digit_char n]"
  by (simp add: digits.simps)

lemma digits_step: "10 \<le> n \<Longrightarrow> digits n = digits (n div 10) @ [digit_char (n mod 10)]"
  by (subst digits.simps) simp

lemma digits_step2:
  assumes "100 \<le> n"
  shows "digits n = digits (n div 100) @ [digit_char (n div 10 mod 10), digit_char (n mod 10)]"
proof -
  have "10 \<le> n" "10 \<le> n div 10" using assms by simp_all
  then have "digits n =
      (digits (n div 10 div 10) @ [digit_char (n div 10 mod 10)]) @ [digit_char (n mod 10)]"
    by (simp add: digits_step)
  moreover have "n div 10 div 10 = n div 100" by (simp add: div_mult2_eq [symmetric])
  ultimately show ?thesis by simp
qed

lemma digits_not_Nil: "digits n \<noteq> []"
  by (subst digits.simps) simp

lemma digit_char_0: "digit_char 0 = CHR ''0''"
  by (simp add: digit_char_def)

text \<open>
  With two fraction digits the padding and the point leave the digits of the hundreds
  and above, the point, and the two last digits.
\<close>

lemma fixed2_shape:
  "(let m = (if n = 0 then ''0'' else digits n);
        k = length m;
        m' = (if k \<le> 2 then replicate (2 + 1 - k) CHR ''0'' @ m else m);
        k' = (if k \<le> 2 then 2 + 1 else k)
    in take (k' - 2) m' @ ''.'' @ drop (k' - 2) m')
   = digits (n div 100) @ ''.'' @ [digit_char (n div 10 mod 10), digit_char (n mod 10)]"
proof -
  consider "n < 10" | "10 \<le> n" "n < 100" | "100 \<le> n" by linarith
  then show ?thesis
  proof cases
    case 1
    then show ?thesis by (simp add: digits_small digit_char_0 Let_def)
  next
    case 2
    then have "n div 10 < 10" "n div 100 = 0" "n \<noteq> 0" by simp_all
    with 2 show ?thesis
      by (simp add: digits_step digits_small digit_char_0 Let_def)
  next
    case 3
    then have "n \<noteq> 0" by simp
    have "length (digits (n div 100)) \<noteq> 0" using digits_not_Nil by simp
    with 3 \<open>n \<noteq> 0\<close> show ?thesis
      by (simp add: digits_step2 Let_def)
  qed
qed

lemma toFixed_2:
  assumes "is_finite q" and "\<bar>real_value q\<bar> < 10 ^ 21"
    and "n = nat \<lfloor>\<bar>real_value q\<bar> * 100 + 1 / 2\<rfloor>"
  shows "toFixed 2 q = (if real_value q < 0 then ''-'' else '''') @ digits (n div 100) @ ''.'' @
           [digit_char (n div 10 mod 10), digit_char (n mod 10)]"
proof -
  have "toFixed 2 q = (if real_value q < 0 then ''-'' else '''') @
     (let m = (if n = 0 then ''0'' else digits n);
        k = length m;
        m' = (if k \<le> 2 then replicate (2 + 1 - k) CHR ''0'' @ m else m);
        k' = (if k \<le> 2 then 2 + 1 else k)
    in take (k' - 2) m' @ ''.'' @ drop (k' - 2) m')"
    using assms by (simp add: toFixed_def Let_def)
  then show ?thesis by (simp only: fixed2_shape)
qed

lemma nearest_hundredth:
  fixes x :: rat
  assumes "0 \<le> x" and "n = nat \<lfloor>x * 100 + 1 / 2\<rfloor>"
  shows "\<bar>of_nat n / 100 - x\<bar> \<le> 1 / 200"
proof -
  have nn: "0 \<le> \<lfloor>x * 100 + 1 / 2\<rfloor>" using assms(1) by simp
  then have n: "(of_nat n :: rat) = of_int \<lfloor>x * 100 + 1 / 2\<rfloor>"
    using assms(2) by simp
  define z where "z = (of_int \<lfloor>x * 100 + 1 / 2\<rfloor> :: rat)"
  have "z \<le> x * 100 + 1 / 2" and "x * 100 + 1 / 2 < z + 1"
    unfolding z_def by linarith+
  then have "z / 100 - x \<le> 1 / 200" and "- (z / 100 - x) \<le> 1 / 200"
    by linarith+
  then have "\<bar>z / 100 - x\<bar> \<le> 1 / 200" by (rule abs_leI)
  then show ?thesis unfolding n z_def .
qed

text \<open>
  The characters of a result of \<open>toFixed\<close> are ASCII digits, letters and signs: none
  is the byte \<open>0xE2\<close> that the dash begins with.
\<close>

lemma digit_char_ascii: "digit_char d \<in> set ''0123456789''"
  unfolding digit_char_def by (rule nth_mem) simp

lemma digits_ascii: "set (digits n) \<subseteq> set ''0123456789''"
proof (induction n rule: digits.induct)
  case (1 n)
  show ?case
  proof (cases "n < 10")
    case True
    then show ?thesis using digit_char_ascii [of n] by (simp add: digits_small)
  next
    case False
    with 1 digit_char_ascii [of "n mod 10"] show ?thesis
      by (simp add: digits_step)
  qed
qed

lemma set_strip_zeros: "set (strip_zeros s) \<subseteq> set s"
  using set_dropWhileD [of _ "\<lambda>c. c = CHR ''0''" "rev s"] by (auto simp: strip_zeros_def)

lemma toString_exp_no_E2:
  assumes "CHR 0xE2 \<in> set (toString_exp x)"
  shows False
proof -
  define D where "D = set ''0123456789''"
  let ?ds = "digits (nat \<lfloor>x\<rfloor>)"
  let ?s = "strip_zeros ?ds"
  have nD: "CHR 0xE2 \<notin> D" by (simp add: D_def)
  have s: "set ?s \<subseteq> D"
    using digits_ascii [of "nat \<lfloor>x\<rfloor>"] set_strip_zeros [of ?ds] unfolding D_def by blast
  have t: "set (take 1 ?s) \<subseteq> D"
    using s set_take_subset [of 1 ?s] by blast
  have d: "set (drop 1 ?s) \<subseteq> D"
    using s set_drop_subset [of 1 ?s] by blast
  have e: "set (digits (length ?ds - 1)) \<subseteq> D"
    unfolding D_def by (rule digits_ascii)
  have "set (toString_exp x) \<subseteq> set ?s \<union> set (take 1 ?s) \<union> set (drop 1 ?s) \<union>
      set (digits (length ?ds - 1)) \<union> set ''.e+''"
    unfolding toString_exp_def Let_def by (cases "length ?s = 1") auto
  with s t d e have "set (toString_exp x) \<subseteq> D \<union> set ''.e+''" by blast
  with assms nD show False by auto
qed

lemma toFixed_no_E2:
  assumes "CHR 0xE2 \<in> set (toFixed f q)"
  shows False
proof (cases "is_finite q")
  case False
  with assms show False by (cases q) (simp_all add: toFixed_def)
next
  case True
  define D where "D = set ''0123456789''"
  let ?x = "\<bar>real_value q\<bar>"
  let ?n = "nat \<lfloor>?x * 10 ^ f + 1 / 2\<rfloor>"
  let ?m = "if ?n = 0 then ''0'' else digits ?n"
  let ?p = "if length ?m \<le> f then replicate (f + 1 - length ?m) CHR ''0'' @ ?m else ?m"
  let ?k = "if length ?m \<le> f then f + 1 else length ?m"
  have nD: "CHR 0xE2 \<notin> D" by (simp add: D_def)
  have z: "CHR ''0'' \<in> D" by (simp add: D_def)
  have m: "set ?m \<subseteq> D"
    using digits_ascii [of ?n] z unfolding D_def by simp
  have p: "set ?p \<subseteq> D" using m z by auto
  have t: "set (take (?k - f) ?p) \<subseteq> D"
    using p set_take_subset [of "?k - f" ?p] by blast
  have d: "set (drop (?k - f) ?p) \<subseteq> D"
    using p set_drop_subset [of "?k - f" ?p] by blast
  have e: "CHR 0xE2 \<notin> set (toString_exp ?x)"
    using toString_exp_no_E2 by blast
  have "set (toFixed f q) \<subseteq>
      set ''-.'' \<union> (set (toString_exp ?x) \<union> set ?m \<union> set (take (?k - f) ?p) \<union>
        set (drop (?k - f) ?p))"
    using True unfolding toFixed_def Let_def
    by (cases "10 ^ 21 \<le> ?x"; cases "f = 0"; cases "real_value q < 0") auto
  with assms have "CHR 0xE2 \<in> set ''-.'' \<union> (set (toString_exp ?x) \<union> set ?m \<union>
      set (take (?k - f) ?p) \<union> set (drop (?k - f) ?p))"
    by blast
  with m t d e nD show False by auto
qed

lemma toFixed_not_dash: "toFixed f q \<noteq> dash"
proof
  assume "toFixed f q = dash"
  then have "CHR 0xE2 \<in> set (toFixed f q)" by (simp add: dash_def)
  then show False by (rule toFixed_no_E2)
qed

text \<open>What passes the guard is formatted.\<close>

lemma calculateROI_quotient:
  assumes "\<not> falsy (Some r)" and "\<not> falsy (Some t)" and "\<not> le_zero (Some t)"
  shows "calculateROI (Some r) (Some t) = toFixed 2 (divide_num r t)"
  using assms by (simp add: calculateROI_def)

lemma nonzero_truthy: "r \<noteq> Finite 0 \<Longrightarrow> r \<noteq> NegZero \<Longrightarrow> r \<noteq> NaN \<Longrightarrow> \<not> falsy (Some r)"
  by (cases r) simp_all

lemma positive_passes:
  "t = PosInf \<or> (\<exists>y. t = Finite y \<and> 0 < y) \<Longrightarrow> \<not> falsy (Some t) \<and> \<not> le_zero (Some t)"
  by auto

lemma negative_truthy: "r = NegInf \<or> (\<exists>x. r = Finite x \<and> x < 0) \<Longrightarrow> \<not> falsy (Some r)"
  by auto

text \<open>At \<open>10^21\<close> the notation is exponential.\<close>

lemma toFixed_10_21: "toFixed 2 (Finite 1000000000000000000000) = ''1e+21''"
  by (simp add: toFixed_def toString_exp_def strip_zeros_def Let_def digits.simps digit_char_def)

lemma toFixed_minus_10_21: "toFixed 2 (Finite (- 1000000000000000000000)) = ''-1e+21''"
  by (simp add: toFixed_def toString_exp_def strip_zeros_def Let_def digits.simps digit_char_def)

text \<open>The results of the examples.\<close>

lemma calculateROI_100_4: "calculateROI (Some (Finite 100)) (Some (Finite 4)) = ''25.00''"
proof -
  have "(2500::nat) = nat \<lfloor>\<bar>real_value (Finite 25)\<bar> * 100 + 1 / 2\<rfloor>"
    by (simp add: floor_rat_numeral)
  then have "toFixed 2 (Finite 25) = ''25.00''"
    by (subst toFixed_2 [of "Finite 25" 2500]) (simp_all add: digits.simps digit_char_def)
  then show ?thesis by (simp add: calculateROI_def divide_100_4)
qed

lemma calculateROI_7_3: "calculateROI (Some (Finite 7)) (Some (Finite 3)) = ''2.33''"
proof -
  have "(233::nat) =
      nat \<lfloor>\<bar>real_value (Finite (5254199565265579 / 2251799813685248))\<bar> * 100 + 1 / 2\<rfloor>"
    by (simp add: floor_rat_numeral)
  then have "toFixed 2 (Finite (5254199565265579 / 2251799813685248)) = ''2.33''"
    by (subst toFixed_2 [of "Finite (5254199565265579 / 2251799813685248)" 233])
       (simp_all add: digits.simps digit_char_def)
  then show ?thesis by (simp add: calculateROI_def divide_7_3)
qed

lemma calculateROI_minus_5_2: "calculateROI (Some (Finite (- 5))) (Some (Finite 2)) = ''-2.50''"
proof -
  have "(250::nat) = nat \<lfloor>\<bar>real_value (Finite (- (5 / 2)))\<bar> * 100 + 1 / 2\<rfloor>"
    by (simp add: floor_rat_numeral)
  then have "toFixed 2 (Finite (- (5 / 2))) = ''-2.50''"
    by (subst toFixed_2 [of "Finite (- (5 / 2))" 250]) (simp_all add: digits.simps digit_char_def)
  then show ?thesis by (simp add: calculateROI_def divide_minus_5_2)
qed

subsection \<open>The guard\<close>

text \<open>
  Claim C2. Where the revenue is absent or zero, or the time is absent, zero or
  negative, \<open>calculateROI\<close> returns the dash, and so no number and no fault of a
  division by zero. In particular the result is the dash for the time \<open>0\<close>, for the
  time \<open>-5\<close> and for the revenue \<open>0\<close>, whatever the other argument, not-a-number and
  the infinities included.
\<close>

theorem calculateROI_guard:
  "(r = None \<or> r = Some (Finite 0) \<or> r = Some NegZero \<or>
    t = None \<or> t = Some (Finite 0) \<or> t = Some NegZero \<or>
    t = Some NegInf \<or> (\<exists>v. t = Some (Finite v) \<and> v < 0)
      \<longrightarrow> calculateROI r t = dash) \<and>
   calculateROI r (Some (Finite 0)) = dash \<and>
   calculateROI r (Some (Finite (- 5))) = dash \<and>
   calculateROI (Some (Finite 0)) t = dash"
  by (auto simp: calculateROI_def)

theorem calculateROI_guard_witness:
  "(\<exists>v. Some (Finite (- 5)) = Some (Finite v) \<and> v < 0) \<and>
   calculateROI (Some (Finite 100)) (Some (Finite (- 5))) = dash"
proof -
  have h: "\<exists>v. Some (Finite (- 5)) = Some (Finite v) \<and> v < 0" by simp
  with calculateROI_guard [of "Some (Finite 100)" "Some (Finite (- 5))"]
  have "calculateROI (Some (Finite 100)) (Some (Finite (- 5))) = dash" by blast
  with h show ?thesis by blast
qed

subsection \<open>The value\<close>

text \<open>
  Claim C3, as amended. Let the revenue be a number other than zero, the time be
  greater than zero, and their quotient, as the division returns it, be finite and
  below \<open>10^21\<close> in absolute value. Then \<open>calculateROI\<close> returns the quotient in
  fixed-point notation with exactly two digits after the point: the sign if the
  quotient is negative, the digits of \<open>n div 100\<close>, the point and the two last digits
  of \<open>n\<close>, where \<open>n\<close> hundredths are the hundredths nearest to the absolute value of
  the quotient (the larger of two). For a finite revenue and time the quotient is
  the exact one up to the rounding of doubles. In particular \<open>calculateROI(100, 4)\<close>
  is \<open>25.00\<close> and \<open>calculateROI(7, 3)\<close> is \<open>2.33\<close>.
\<close>

theorem calculateROI_value:
  assumes "r \<noteq> Finite 0" and "r \<noteq> NegZero" and "r \<noteq> NaN"
    and "t = PosInf \<or> (\<exists>y. t = Finite y \<and> 0 < y)"
    and "q = divide_num r t" and "is_finite q" and "\<bar>real_value q\<bar> < 10 ^ 21"
    and "n = nat \<lfloor>\<bar>real_value q\<bar> * 100 + 1 / 2\<rfloor>"
  shows "calculateROI (Some r) (Some t) =
           (if real_value q < 0 then ''-'' else '''') @ digits (n div 100) @ ''.'' @
           [digit_char (n div 10 mod 10), digit_char (n mod 10)] \<and>
         \<bar>of_nat n / 100 - \<bar>real_value q\<bar>\<bar> \<le> 1 / 200 \<and>
         (\<forall>x y. r = Finite x \<and> t = Finite y \<longrightarrow>
            \<bar>real_value q - x / y\<bar> \<le> max (\<bar>x / y\<bar> / 2 ^ 53) (1 / 2 ^ 1075)) \<and>
         calculateROI (Some (Finite 100)) (Some (Finite 4)) = ''25.00'' \<and>
         calculateROI (Some (Finite 7)) (Some (Finite 3)) = ''2.33''"
proof (intro conjI allI impI)
  have "\<not> falsy (Some r)"
    using assms(1-3) by (rule nonzero_truthy)
  moreover have "\<not> falsy (Some t) \<and> \<not> le_zero (Some t)"
    using assms(4) by (rule positive_passes)
  ultimately have "calculateROI (Some r) (Some t) = toFixed 2 q"
    unfolding assms(5) by (intro calculateROI_quotient) simp_all
  also have "\<dots> = (if real_value q < 0 then ''-'' else '''') @ digits (n div 100) @ ''.'' @
           [digit_char (n div 10 mod 10), digit_char (n mod 10)]"
    using assms(6-8) by (rule toFixed_2)
  finally show "calculateROI (Some r) (Some t) =
           (if real_value q < 0 then ''-'' else '''') @ digits (n div 100) @ ''.'' @
           [digit_char (n div 10 mod 10), digit_char (n mod 10)]" .
  show "\<bar>of_nat n / 100 - \<bar>real_value q\<bar>\<bar> \<le> 1 / 200"
    using assms(8) by (intro nearest_hundredth) simp_all
  show "\<bar>real_value q - x / y\<bar> \<le> max (\<bar>x / y\<bar> / 2 ^ 53) (1 / 2 ^ 1075)"
    if "r = Finite x \<and> t = Finite y" for x y
  proof -
    from that assms(1,4) have "x \<noteq> 0" and "y \<noteq> 0" by auto
    moreover from that assms(5,6) have "is_finite (divide_num (Finite x) (Finite y))"
      by simp
    ultimately have "\<bar>real_value (divide_num (Finite x) (Finite y)) - x / y\<bar>
        \<le> max (\<bar>x / y\<bar> / 2 ^ 53) (1 / 2 ^ 1075)"
      by (rule divide_num_accuracy)
    moreover from that assms(5) have "q = divide_num (Finite x) (Finite y)" by simp
    ultimately show ?thesis by (simp only:)
  qed
  show "calculateROI (Some (Finite 100)) (Some (Finite 4)) = ''25.00''"
    by (rule calculateROI_100_4)
  show "calculateROI (Some (Finite 7)) (Some (Finite 3)) = ''2.33''"
    by (rule calculateROI_7_3)
qed

text \<open>
  The revenue \<open>7\<close> and the time \<open>3\<close>: the quotient is the double next to \<open>7/3\<close> and
  \<open>n\<close> is \<open>233\<close>.
\<close>

theorem calculateROI_value_witness:
  "Finite 7 \<noteq> Finite 0 \<and> Finite 7 \<noteq> NegZero \<and> Finite 7 \<noteq> NaN \<and>
   (\<exists>y. Finite 3 = Finite y \<and> 0 < y) \<and>
   Finite (5254199565265579 / 2251799813685248) = divide_num (Finite 7) (Finite 3) \<and>
   is_finite (Finite (5254199565265579 / 2251799813685248)) \<and>
   \<bar>real_value (Finite (5254199565265579 / 2251799813685248))\<bar> < 10 ^ 21 \<and>
   (233::nat) = nat \<lfloor>\<bar>real_value (Finite (5254199565265579 / 2251799813685248))\<bar> * 100 + 1 / 2\<rfloor> \<and>
   calculateROI (Some (Finite 7)) (Some (Finite 3)) = ''2.33''"
proof -
  let ?q = "Finite (5254199565265579 / 2251799813685248)"
  have r: "Finite 7 \<noteq> Finite 0" "Finite 7 \<noteq> NegZero" "Finite 7 \<noteq> NaN"
    by simp_all
  have t: "\<exists>y. Finite 3 = Finite y \<and> 0 < y" by simp
  then have t': "Finite 3 = PosInf \<or> (\<exists>y. Finite 3 = Finite y \<and> 0 < y)" by blast
  have q: "?q = divide_num (Finite 7) (Finite 3)" by (simp only: divide_7_3)
  have f: "is_finite ?q" "\<bar>real_value ?q\<bar> < 10 ^ 21" by simp_all
  have n: "(233::nat) = nat \<lfloor>\<bar>real_value ?q\<bar> * 100 + 1 / 2\<rfloor>"
    by (simp add: floor_rat_numeral)
  from calculateROI_value [OF r t' q f n]
  have "calculateROI (Some (Finite 7)) (Some (Finite 3)) =
          (if real_value ?q < 0 then ''-'' else '''') @ digits (233 div 100) @ ''.'' @
          [digit_char (233 div 10 mod 10), digit_char (233 mod 10)]"
    by blast
  then have "calculateROI (Some (Finite 7)) (Some (Finite 3)) = ''2.33''"
    by (simp add: digits.simps digit_char_def)
  with r t q f n show ?thesis by blast
qed

text \<open>
  The claim without the amendment fails at the revenue \<open>10^21\<close> and the time \<open>1\<close>: the
  result is in exponential notation, without a point and without fraction digits.
\<close>

theorem calculateROI_value_counterexample:
  "Finite (10 ^ 21) \<noteq> Finite 0 \<and> Finite (10 ^ 21) \<noteq> NegZero \<and> Finite (10 ^ 21) \<noteq> NaN \<and>
   (0::rat) < 1 \<and>
   calculateROI (Some (Finite (10 ^ 21))) (Some (Finite 1)) = ''1e+21''"
proof -
  have "toFixed 2 (divide_num (Finite (10 ^ 21)) (Finite 1)) = ''1e+21''"
    unfolding divide_10_21 using toFixed_10_21 by simp
  then show ?thesis by (simp add: calculateROI_def)
qed

subsection \<open>A negative revenue\<close>

text \<open>
  Claim C10, as amended. The guard does not reject a negative revenue: for a revenue
  below zero and a time above zero the result is never the dash, and where the
  quotient, as the division returns it, is finite and below \<open>10^21\<close> in absolute value
  the result is that quotient in fixed-point notation with two digits after the
  point. In particular \<open>calculateROI(-5, 2)\<close> is \<open>-2.50\<close>.
\<close>

theorem calculateROI_negative_revenue:
  "((r = NegInf \<or> (\<exists>x. r = Finite x \<and> x < 0)) \<and> (t = PosInf \<or> (\<exists>y. t = Finite y \<and> 0 < y))
      \<longrightarrow> calculateROI (Some r) (Some t) \<noteq> dash) \<and>
   ((r = NegInf \<or> (\<exists>x. r = Finite x \<and> x < 0)) \<and> (t = PosInf \<or> (\<exists>y. t = Finite y \<and> 0 < y)) \<and>
    q = divide_num r t \<and> is_finite q \<and> \<bar>real_value q\<bar> < 10 ^ 21 \<and>
    n = nat \<lfloor>\<bar>real_value q\<bar> * 100 + 1 / 2\<rfloor>
      \<longrightarrow> calculateROI (Some r) (Some t) =
            (if real_value q < 0 then ''-'' else '''') @ digits (n div 100) @ ''.'' @
            [digit_char (n div 10 mod 10), digit_char (n mod 10)]) \<and>
   calculateROI (Some (Finite (- 5))) (Some (Finite 2)) = ''-2.50''"
proof (intro conjI impI)
  assume a: "(r = NegInf \<or> (\<exists>x. r = Finite x \<and> x < 0)) \<and>
      (t = PosInf \<or> (\<exists>y. t = Finite y \<and> 0 < y))"
  then have "\<not> falsy (Some r)" and "\<not> falsy (Some t) \<and> \<not> le_zero (Some t)"
    using negative_truthy positive_passes by blast+
  then have "calculateROI (Some r) (Some t) = toFixed 2 (divide_num r t)"
    by (intro calculateROI_quotient) simp_all
  then show "calculateROI (Some r) (Some t) \<noteq> dash"
    by (simp only: toFixed_not_dash not_False_eq_True)
next
  assume a: "(r = NegInf \<or> (\<exists>x. r = Finite x \<and> x < 0)) \<and>
      (t = PosInf \<or> (\<exists>y. t = Finite y \<and> 0 < y)) \<and>
      q = divide_num r t \<and> is_finite q \<and> \<bar>real_value q\<bar> < 10 ^ 21 \<and>
      n = nat \<lfloor>\<bar>real_value q\<bar> * 100 + 1 / 2\<rfloor>"
  then have "\<not> falsy (Some r)" and "\<not> falsy (Some t) \<and> \<not> le_zero (Some t)"
    using negative_truthy positive_passes by blast+
  then have "calculateROI (Some r) (Some t) = toFixed 2 (divide_num r t)"
    by (intro calculateROI_quotient) simp_all
  also from a have "divide_num r t = q" by simp
  also from a have "is_finite q" and "\<bar>real_value q\<bar> < 10 ^ 21"
    and "n = nat \<lfloor>\<bar>real_value q\<bar> * 100 + 1 / 2\<rfloor>"
    by blast+
  then have "toFixed 2 q = (if real_value q < 0 then ''-'' else '''') @ digits (n div 100) @ ''.'' @
            [digit_char (n div 10 mod 10), digit_char (n mod 10)]"
    by (rule toFixed_2)
  finally show "calculateROI (Some r) (Some t) =
            (if real_value q < 0 then ''-'' else '''') @ digits (n div 100) @ ''.'' @
            [digit_char (n div 10 mod 10), digit_char (n mod 10)]" .
next
  show "calculateROI (Some (Finite (- 5))) (Some (Finite 2)) = ''-2.50''"
    by (rule calculateROI_minus_5_2)
qed

text \<open>The revenue \<open>-5\<close> and the time \<open>2\<close>: the quotient is \<open>-5/2\<close> and \<open>n\<close> is \<open>250\<close>.\<close>

theorem calculateROI_negative_revenue_witness:
  "(\<exists>x. Finite (- 5) = Finite x \<and> x < 0) \<and> (\<exists>y. Finite 2 = Finite y \<and> 0 < y) \<and>
   Finite (- (5 / 2)) = divide_num (Finite (- 5)) (Finite 2) \<and>
   is_finite (Finite (- (5 / 2))) \<and> \<bar>real_value (Finite (- (5 / 2)))\<bar> < 10 ^ 21 \<and>
   (250::nat) = nat \<lfloor>\<bar>real_value (Finite (- (5 / 2)))\<bar> * 100 + 1 / 2\<rfloor> \<and>
   calculateROI (Some (Finite (- 5))) (Some (Finite 2)) \<noteq> dash \<and>
   calculateROI (Some (Finite (- 5))) (Some (Finite 2)) = ''-2.50''"
proof -
  let ?q = "Finite (- (5 / 2))"
  have r: "\<exists>x. Finite (- 5) = Finite x \<and> x < 0" by simp
  have t: "\<exists>y. Finite 2 = Finite y \<and> 0 < y" by simp
  have q: "?q = divide_num (Finite (- 5)) (Finite 2)" by (simp only: divide_minus_5_2)
  have f: "is_finite ?q" "\<bar>real_value ?q\<bar> < 10 ^ 21" by simp_all
  have n: "(250::nat) = nat \<lfloor>\<bar>real_value ?q\<bar> * 100 + 1 / 2\<rfloor>"
    by (simp add: floor_rat_numeral)
  from calculateROI_negative_revenue [of "Finite (- 5)" "Finite 2" ?q 250] r t q f n
  have "calculateROI (Some (Finite (- 5))) (Some (Finite 2)) \<noteq> dash"
    and "calculateROI (Some (Finite (- 5))) (Some (Finite 2)) =
          (if real_value ?q < 0 then ''-'' else '''') @ digits (250 div 100) @ ''.'' @
          [digit_char (250 div 10 mod 10), digit_char (250 mod 10)]"
    by blast+
  then have "calculateROI (Some (Finite (- 5))) (Some (Finite 2)) \<noteq> dash"
    and "calculateROI (Some (Finite (- 5))) (Some (Finite 2)) = ''-2.50''"
    by (simp_all add: digits.simps digit_char_def)
  with r t q f n show ?thesis by blast
qed

text \<open>
  The claim without the amendment fails at the revenue \<open>-10^21\<close> and the time \<open>1\<close>:
  the result is not the dash, and it is in exponential notation.
\<close>

theorem calculateROI_negative_revenue_counterexample:
  "(- (10 ^ 21) :: rat) < 0 \<and> (0::rat) < 1 \<and>
   calculateROI (Some (Finite (- (10 ^ 21)))) (Some (Finite 1)) = ''-1e+21''"
proof -
  have "toFixed 2 (divide_num (Finite (- (10 ^ 21))) (Finite 1)) = ''-1e+21''"
    unfolding divide_minus_10_21 using toFixed_minus_10_21 by simp
  then show ?thesis by (simp add: calculateROI_def)
qed

end
